theory Spec2Isabelle
  imports Complex_Main "HOL-Library.Word"
begin

section \<open>The host program: \<^verbatim>\<open>src/index.js\<close>\<close>

subsection \<open>Constants\<close>

definition GRID_SIZE :: nat where
  "GRID_SIZE = 256"

definition UPDATE_INTERVAL :: nat where
  "UPDATE_INTERVAL = 33"

definition WORKGROUP_SIZE :: nat where
  "WORKGROUP_SIZE = 8"

text \<open>
  The twelve coordinates of the two triangles of one cell quad. The program stores them
  in a \<^verbatim>\<open>Float32Array\<close>; only the number of elements is used by the host.
\<close>

definition vertices :: "real list" where
  "vertices =
     [-0.8, -0.8, 0.8, -0.8, 0.8, 0.8,
      -0.8, -0.8, 0.8, 0.8, -0.8, 0.8]"

subsection \<open>Device resources\<close>

text \<open>The four buffers the program creates, named by their labels.\<close>

datatype GPUBuffer = Cell_vertices | Grid_Uniforms | Cell_State_A | Cell_State_B

definition vertexBuffer :: GPUBuffer where
  "vertexBuffer = Cell_vertices"

definition uniformBuffer :: GPUBuffer where
  "uniformBuffer = Grid_Uniforms"

definition cellStateStorage :: "GPUBuffer list" where
  "cellStateStorage = [Cell_State_A, Cell_State_B]"

text \<open>
  \<^verbatim>\<open>GPUShaderStage\<close> flags are combined with \<^verbatim>\<open>|\<close> in the program; a
  combination of flags is modelled as the set of stages it names. A
  \<^verbatim>\<open>buffer: {}\<close> entry has the default binding type \<^verbatim>\<open>"uniform"\<close>.
\<close>

datatype GPUShaderStage = VERTEX | FRAGMENT | COMPUTE

datatype GPUBufferBindingType = uniform | read_only_storage | storage

record GPUBindGroupLayoutEntry =
  binding :: nat
  visibility :: "GPUShaderStage set"
  buffer_type :: GPUBufferBindingType

definition bindGroupLayout :: "GPUBindGroupLayoutEntry list" where
  "bindGroupLayout =
     [\<lparr>binding = 0, visibility = {VERTEX} \<union> {COMPUTE}, buffer_type = uniform\<rparr>,
      \<lparr>binding = 1, visibility = {VERTEX} \<union> {COMPUTE}, buffer_type = read_only_storage\<rparr>,
      \<lparr>binding = 2, visibility = {COMPUTE}, buffer_type = storage\<rparr>]"

record GPUBindGroup =
  label :: string
  entries :: "(nat \<times> GPUBuffer) list"

definition bindGroups :: "GPUBindGroup list" where
  "bindGroups =
     [\<lparr>label = ''Cell renderer bind group A'',
       entries = [(0, uniformBuffer), (1, cellStateStorage ! 0), (2, cellStateStorage ! 1)]\<rparr>,
      \<lparr>label = ''Cell renderer bind group B'',
       entries = [(0, uniformBuffer), (1, cellStateStorage ! 1), (2, cellStateStorage ! 0)]\<rparr>]"

datatype GPUPipeline = simulationPipeline | cellPipeline

subsection \<open>Commands recorded by \<^verbatim>\<open>updateGrid\<close>\<close>

datatype GPUCommand =
    SetPipeline GPUPipeline
  | SetBindGroup nat GPUBindGroup
  | DispatchWorkgroups nat nat
  | SetVertexBuffer nat GPUBuffer
  | Draw nat nat

record GPUColorAttachment =
  loadOp :: string
  clearValue :: "real \<times> real \<times> real \<times> real"
  storeOp :: string

datatype GPUPass =
    ComputePass "GPUCommand list"
  | RenderPass "GPUColorAttachment list" "GPUCommand list"

type_synonym GPUCommandBuffer = "GPUPass list"

text \<open>
  The host state: the generation counter \<^verbatim>\<open>step\<close> and the device queue, one
  element per call of \<^verbatim>\<open>device.queue.submit\<close>, each the list of command buffers
  that call was given.
\<close>

record host =
  step :: nat
  queue :: "GPUCommandBuffer list list"

text \<open>
  \<^verbatim>\<open>step\<close> is a JavaScript Number, an IEEE 754 double. \<^verbatim>\<open>step++\<close> is exact
  while the result is at most \<open>2 ^ 53\<close>; at \<open>2 ^ 53\<close> the sum \<open>2 ^ 53 + 1\<close> is
  not representable and rounds (to even) back to \<open>2 ^ 53\<close>. The counter starts at 0
  and is only ever incremented, so these are all the values it takes.
\<close>

definition increment :: "nat \<Rightarrow> nat" where
  "increment s = (if s < 2 ^ 53 then s + 1 else s)"

definition updateGrid :: "host \<Rightarrow> host" where
  "updateGrid h =
     (let workgroupCount = nat \<lceil>real GRID_SIZE / real WORKGROUP_SIZE\<rceil>;
          computePass = ComputePass
            [SetPipeline simulationPipeline,
             SetBindGroup 0 (bindGroups ! (step h mod 2)),
             DispatchWorkgroups workgroupCount workgroupCount];
          step' = increment (step h);
          pass = RenderPass
            [\<lparr>loadOp = ''clear'', clearValue = (0, 0, 0.4, 1.0), storeOp = ''store''\<rparr>]
            [SetPipeline cellPipeline,
             SetBindGroup 0 (bindGroups ! (step' mod 2)),
             SetVertexBuffer 0 vertexBuffer,
             Draw (length vertices div 2) (GRID_SIZE * GRID_SIZE)];
          encoder = [computePass, pass]
      in \<lparr>step = step', queue = queue h @ [[encoder]]\<rparr>)"

text \<open>
  \<^verbatim>\<open>let step = 0\<close>, and \<^verbatim>\<open>setInterval(updateGrid, UPDATE_INTERVAL)\<close>: the state
  after \<open>n\<close> firings of the timer.
\<close>

definition initial :: host where
  "initial = \<lparr>step = 0, queue = []\<rparr>"

primrec ticks :: "nat \<Rightarrow> host" where
  "ticks 0 = initial"
| "ticks (Suc n) = updateGrid (ticks n)"

subsection \<open>Reading a submitted batch\<close>

text \<open>
  The bind group a pass has bound at slot 0 when it dispatches or draws: the last
  \<^verbatim>\<open>setBindGroup(0, _)\<close> recorded in it.
\<close>

fun boundGroup :: "GPUCommand list \<Rightarrow> GPUBindGroup option" where
  "boundGroup [] = None"
| "boundGroup (SetBindGroup i g # cs) =
     (case boundGroup cs of
        Some g' \<Rightarrow> Some g'
      | None \<Rightarrow> if i = 0 then Some g else None)"
| "boundGroup (c # cs) = boundGroup cs"

fun commands :: "GPUPass \<Rightarrow> GPUCommand list" where
  "commands (ComputePass cs) = cs"
| "commands (RenderPass as cs) = cs"

fun isCompute :: "GPUPass \<Rightarrow> bool" where
  "isCompute (ComputePass cs) = True"
| "isCompute (RenderPass as cs) = False"

text \<open>The buffer a bind group binds at a binding number.\<close>

definition resource :: "GPUBindGroup \<Rightarrow> nat \<Rightarrow> GPUBuffer option" where
  "resource g b = map_of (entries g) b"

text \<open>
  The buffers of a bind group that a set of shader stages can reach under
  \<^verbatim>\<open>bindGroupLayout\<close>, restricted to the binding types in \<open>ts\<close>.
\<close>

definition reachable :: "GPUShaderStage set \<Rightarrow> GPUBufferBindingType set \<Rightarrow> GPUBindGroup \<Rightarrow> GPUBuffer list" where
  "reachable stages ts g =
     concat (map (\<lambda>e. if visibility e \<inter> stages \<noteq> {} \<and> buffer_type e \<in> ts
                       then (case resource g (binding e) of Some b \<Rightarrow> [b] | None \<Rightarrow> [])
                       else [])
                 bindGroupLayout)"

text \<open>
  The compute pass of the batch submitted by tick \<open>n\<close> (ticks are counted from 0),
  and the (source, destination) pair of cell-state buffers it is bound to: source is the
  read-only storage binding 1, destination the writable storage binding 2.
\<close>

definition batch :: "nat \<Rightarrow> GPUCommandBuffer list" where
  "batch n = queue (ticks (Suc n)) ! n"

definition computeGroup :: "GPUCommandBuffer list \<Rightarrow> GPUBindGroup option" where
  "computeGroup b =
     (case filter isCompute (concat b) of
        [p] \<Rightarrow> boundGroup (commands p)
      | _ \<Rightarrow> None)"

definition renderGroup :: "GPUCommandBuffer list \<Rightarrow> GPUBindGroup option" where
  "renderGroup b =
     (case filter (\<lambda>p. \<not> isCompute p) (concat b) of
        [p] \<Rightarrow> boundGroup (commands p)
      | _ \<Rightarrow> None)"

definition roles :: "GPUBindGroup \<Rightarrow> (GPUBuffer option \<times> GPUBuffer option)" where
  "roles g = (resource g 1, resource g 2)"

definition computeRoles :: "nat \<Rightarrow> (GPUBuffer option \<times> GPUBuffer option)" where
  "computeRoles n = (case computeGroup (batch n) of Some g \<Rightarrow> roles g | None \<Rightarrow> (None, None))"

definition renderReads :: "GPUCommandBuffer list \<Rightarrow> GPUBuffer list" where
  "renderReads b =
     (case renderGroup b of
        Some g \<Rightarrow> reachable {VERTEX, FRAGMENT} {read_only_storage, storage} g
      | None \<Rightarrow> [])"

definition computeWrites :: "GPUCommandBuffer list \<Rightarrow> GPUBuffer list" where
  "computeWrites b =
     (case computeGroup b of
        Some g \<Rightarrow> reachable {COMPUTE} {storage} g
      | None \<Rightarrow> [])"

text \<open>The (vertex count, instance count) of every draw call of a batch, in order.\<close>

fun drawCall :: "GPUCommand \<Rightarrow> (nat \<times> nat) list" where
  "drawCall (Draw vertexCount instanceCount) = [(vertexCount, instanceCount)]"
| "drawCall c = []"

definition draws :: "GPUCommandBuffer list \<Rightarrow> (nat \<times> nat) list" where
  "draws b = concat (map drawCall (concat (map commands (concat b))))"

subsection \<open>Start-up\<close>

text \<open>
  What the top-level script depends on: whether \<^verbatim>\<open>navigator.gpu\<close> is there,
  whether \<^verbatim>\<open>requestAdapter()\<close> gives an adapter, whether
  \<^verbatim>\<open>requestDevice()\<close> resolves, whether the page has a canvas and the canvas a
  \<^verbatim>\<open>webgpu\<close> context, and the results of the successive calls of
  \<^verbatim>\<open>Math.random()\<close> (doubles in \<open>[0, 1)\<close>, taken at their real values).
\<close>

record environment =
  navigator_gpu :: bool
  adapter :: bool
  device :: bool
  canvas :: bool
  canvas_context :: bool
  random :: "nat \<Rightarrow> real"

datatype error = Error string | Rejected | TypeError

datatype TypedArray = Float32Array "real list" | Uint32Array "32 word list"

text \<open>The calls with an effect outside the script, in the order the script makes them.\<close>

datatype effect =
    RequestAdapter
  | RequestDevice
  | Configure
  | CreateBuffer string nat
  | WriteBuffer GPUBuffer nat TypedArray
  | CreateBindGroupLayout string
  | CreatePipelineLayout string
  | CreateShaderModule string
  | CreateRenderPipeline string
  | CreateComputePipeline string
  | CreateBindGroup string
  | SetInterval nat

text \<open>
  The seeding loop
  \<^verbatim>\<open>for (let i = 0; i < cellStateArray.length; ++i)
    cellStateArray[i] = Math.random() > 0.6 ? 1 : 0;\<close>
  It makes the only calls of \<^verbatim>\<open>Math.random\<close>, so iteration \<open>i\<close> gets draw
  \<open>i\<close>. No double lies strictly between the double nearest to 0.6 and 0.6, so on
  doubles the comparison with the literal is the comparison with the real number 0.6.
\<close>

function seedLoop :: "(nat \<Rightarrow> real) \<Rightarrow> nat \<Rightarrow> 32 word list \<Rightarrow> 32 word list" where
  "seedLoop rnd i cellStateArray =
     (if i < length cellStateArray
      then seedLoop rnd (i + 1) (cellStateArray[i := (if rnd i > 0.6 then 1 else 0)])
      else cellStateArray)"
  by pat_completeness auto
termination
  by (relation "measure (\<lambda>(rnd, i, cellStateArray). length cellStateArray - i)") auto

declare seedLoop.simps [simp del]

text \<open>\<^verbatim>\<open>new Uint32Array(GRID_SIZE * GRID_SIZE)\<close> is all zeros before the loop.\<close>

definition cellStateArray :: "(nat \<Rightarrow> real) \<Rightarrow> 32 word list" where
  "cellStateArray rnd = seedLoop rnd 0 (replicate (GRID_SIZE * GRID_SIZE) 0)"

definition uniformArray :: "real list" where
  "uniformArray = [real GRID_SIZE, real GRID_SIZE]"

text \<open>Everything the script does once the device and the canvas context are there.\<close>

definition construct :: "(nat \<Rightarrow> real) \<Rightarrow> effect list" where
  "construct rnd =
     [CreateBuffer ''Cell vertices'' (4 * length vertices),
      WriteBuffer vertexBuffer 0 (Float32Array vertices),
      CreateBindGroupLayout ''Cell Bind Group Layout'',
      CreatePipelineLayout ''Cell Pipeline Layout'',
      CreateShaderModule ''Vertex Shader'',
      CreateShaderModule ''Fragment Shader'',
      CreateRenderPipeline ''Cell pipeline'',
      CreateShaderModule ''Life simulation shader'',
      CreateComputePipeline ''Simulation pipeline'',
      CreateBuffer ''Grid Uniforms'' (4 * length uniformArray),
      WriteBuffer uniformBuffer 0 (Float32Array uniformArray),
      CreateBuffer ''Cell State A'' (4 * (GRID_SIZE * GRID_SIZE)),
      CreateBuffer ''Cell State B'' (4 * (GRID_SIZE * GRID_SIZE)),
      WriteBuffer (cellStateStorage ! 0) 0 (Uint32Array (cellStateArray rnd)),
      CreateBindGroup ''Cell renderer bind group A'',
      CreateBindGroup ''Cell renderer bind group B'',
      SetInterval UPDATE_INTERVAL]"

text \<open>
  The script from its first line to \<^verbatim>\<open>setInterval\<close>: the effects it had, and
  either the exception that ended it or the host state the timer starts from.
\<close>

definition startup :: "environment \<Rightarrow> effect list \<times> (error + host)" where
  "startup env =
     (if \<not> navigator_gpu env
        then ([], Inl (Error ''WebGPU not supported on this browser.''))
      else if \<not> adapter env
        then ([RequestAdapter], Inl (Error ''No appropriate GPUAdapter found.''))
      else if \<not> device env
        then ([RequestAdapter, RequestDevice], Inl Rejected)
      else if \<not> canvas env
        then ([RequestAdapter, RequestDevice], Inl TypeError)
      else if \<not> canvas_context env
        then ([RequestAdapter, RequestDevice], Inl TypeError)
      else ([RequestAdapter, RequestDevice, Configure] @ construct (random env), Inr initial))"

text \<open>The program after \<open>n\<close> firings of the timer; no timer runs when start-up threw.\<close>

definition run :: "environment \<Rightarrow> nat \<Rightarrow> error + host" where
  "run env n =
     (case snd (startup env) of
        Inl e \<Rightarrow> Inl e
      | Inr h \<Rightarrow> Inr ((updateGrid ^^ n) h))"

fun constructsPipeline :: "effect \<Rightarrow> bool" where
  "constructsPipeline (CreatePipelineLayout l) = True"
| "constructsPipeline (CreateShaderModule l) = True"
| "constructsPipeline (CreateRenderPipeline l) = True"
| "constructsPipeline (CreateComputePipeline l) = True"
| "constructsPipeline e = False"

fun schedulesTick :: "effect \<Rightarrow> bool" where
  "schedulesTick (SetInterval ms) = True"
| "schedulesTick e = False"

text \<open>The data the host writes into a buffer, in order.\<close>

fun writeTo :: "GPUBuffer \<Rightarrow> effect \<Rightarrow> (nat \<times> TypedArray) list" where
  "writeTo b (WriteBuffer b' offset data) = (if b' = b then [(offset, data)] else [])"
| "writeTo b e = []"

definition hostWrites :: "GPUBuffer \<Rightarrow> effect list \<Rightarrow> (nat \<times> TypedArray) list" where
  "hostWrites b es = concat (map (writeTo b) es)"

subsection \<open>The render pass on device memory\<close>

text \<open>
  The render pass that \<^verbatim>\<open>updateGrid\<close> records (the FrameRenderer of the
  specification), as it acts on the contents of the buffers. The vertex shader
  \<^verbatim>\<open>shaders/vert.wgsl\<close> is not among the sources, so the pass is run with any
  shader program: a program is the list of stores its stages attempt, each through a
  binding of the bind group. The device performs a store only through a binding whose
  layout entry is visible to the storing stage and has the writable type
  \<^verbatim>\<open>"storage"\<close>. A render pipeline runs the vertex and the fragment stage.
\<close>

record 'c store =
  stage :: GPUShaderStage
  target :: nat
  update :: "'c \<Rightarrow> 'c"

definition writable :: "GPUShaderStage \<Rightarrow> nat \<Rightarrow> bool" where
  "writable s b =
     list_ex (\<lambda>e. binding e = b \<and> s \<in> visibility e \<and> buffer_type e = storage) bindGroupLayout"

definition performStore :: "GPUBindGroup \<Rightarrow> 'c store \<Rightarrow> (GPUBuffer \<Rightarrow> 'c) \<Rightarrow> (GPUBuffer \<Rightarrow> 'c)" where
  "performStore g s mem =
     (if stage s \<in> {VERTEX, FRAGMENT} \<and> writable (stage s) (target s)
      then (case resource g (target s) of
              Some b \<Rightarrow> mem(b := update s (mem b))
            | None \<Rightarrow> mem)
      else mem)"

definition FrameRenderer :: "GPUBindGroup \<Rightarrow> 'c store list \<Rightarrow> (GPUBuffer \<Rightarrow> 'c) \<Rightarrow> (GPUBuffer \<Rightarrow> 'c)" where
  "FrameRenderer g program mem = fold (performStore g) program mem"

section \<open>The fragment shader: \<^verbatim>\<open>src/shaders/frag.wgsl\<close>\<close>

text \<open>
  \<^verbatim>\<open>f32\<close> is kept abstract: any type with a \<open>1\<close> and a subtraction.
\<close>

datatype 'f vec2f = vec2f 'f 'f

datatype 'f vec4f = vec4f 'f 'f 'f 'f

record 'f VertexOutput =
  position :: "'f vec4f"
  cell :: "'f vec2f"


section \<open>The simulation step\<close>

text \<open>
  Modelled from the spec: the compute shader \<^verbatim>\<open>shaders/compute.wgsl\<close>, which
  \<^verbatim>\<open>index.js\<close> imports and runs as \<^verbatim>\<open>simulationPipeline\<close>, is not among the
  sources. GridState (spec 3 and 4.1): the grid dimensions and the two cell-state buffers
  \<open>A\<close> and \<open>B\<close>, one fixed-width word per cell.
\<close>

record GridState =
  width :: nat
  height :: nat
  bufferA :: "32 word list"
  bufferB :: "32 word list"

text \<open>
  Modelled from the spec: the two buffers as a two-slot array with an index function
  (spec 9); \<open>buffer[0]\<close> is \<open>A\<close> and \<open>buffer[1]\<close> is \<open>B\<close>.
\<close>

definition buffer :: "GridState \<Rightarrow> nat \<Rightarrow> 32 word list" where
  "buffer g i = (if i = 0 then bufferA g else bufferB g)"

text \<open>Modelled from the spec: replacing the contents of one slot.\<close>

definition setBuffer :: "nat \<Rightarrow> 32 word list \<Rightarrow> GridState \<Rightarrow> GridState" where
  "setBuffer i b g = (if i = 0 then g\<lparr>bufferA := b\<rparr> else g\<lparr>bufferB := b\<rparr>)"

text \<open>
  Modelled from the spec: dimensions are positive and each buffer holds one entry per
  cell (spec 3, 4.1).
\<close>

definition wellFormed :: "GridState \<Rightarrow> bool" where
  "wellFormed g =
     (0 < width g \<and> 0 < height g \<and>
      length (bufferA g) = width g * height g \<and>
      length (bufferB g) = width g * height g)"

text \<open>Modelled from the spec: a cell is addressed by \<open>y * width + x\<close> (spec 3).\<close>

definition cellIndex :: "nat \<Rightarrow> nat \<Rightarrow> nat \<Rightarrow> nat" where
  "cellIndex w x y = y * w + x"

text \<open>
  Modelled from the spec: cell states are integers with one bit of meaning (spec 3); the
  host seeds 1 for live and 0 for dead. A cell counts as live when its word is not 0.
\<close>

definition live :: "32 word \<Rightarrow> bool" where
  "live c = (c \<noteq> 0)"

text \<open>
  Modelled from the spec: reading a cell state. Wrapped coordinates are always inside a
  buffer that holds one entry per cell; outside such a buffer the read gives a dead cell.
\<close>

definition load :: "32 word list \<Rightarrow> nat \<Rightarrow> 32 word" where
  "load b i = (if i < length b then b ! i else 0)"

text \<open>
  Modelled from the spec: a neighbour coordinate wraps modulo the grid dimension
  (spec 4.2): column \<open>w - 1\<close> is the left neighbour of column 0.
\<close>

definition wrap :: "nat \<Rightarrow> int \<Rightarrow> nat" where
  "wrap n k = nat (k mod int n)"

text \<open>Modelled from the spec: the offsets of the 8 neighbours of a cell (spec 4.2).\<close>

definition offsets :: "(int \<times> int) list" where
  "offsets = [(-1, -1), (0, -1), (1, -1), (-1, 0), (1, 0), (-1, 1), (0, 1), (1, 1)]"

text \<open>Modelled from the spec: the 8 neighbours of \<open>(x, y)\<close> on the torus (spec 4.2).\<close>

definition neighbours :: "nat \<Rightarrow> nat \<Rightarrow> nat \<Rightarrow> nat \<Rightarrow> (nat \<times> nat) list" where
  "neighbours w h x y = map (\<lambda>(dx, dy). (wrap w (int x + dx), wrap h (int y + dy))) offsets"

text \<open>
  Modelled from the spec: the number of live cells among the 8 neighbours, read from the
  source buffer (spec 4.2).
\<close>

definition liveNeighbours :: "nat \<Rightarrow> nat \<Rightarrow> 32 word list \<Rightarrow> nat \<Rightarrow> nat \<Rightarrow> nat" where
  "liveNeighbours w h source x y =
     length (filter (\<lambda>(nx, ny). live (load source (cellIndex w nx ny))) (neighbours w h x y))"

text \<open>
  Modelled from the spec: the transition rule (spec 4.2). A live cell survives iff it has
  exactly 2 or 3 live neighbours; a dead cell becomes live iff it has exactly 3; all
  other combinations yield dead.
\<close>

definition transition :: "bool \<Rightarrow> nat \<Rightarrow> bool" where
  "transition alive n = (if alive then n = 2 \<or> n = 3 else n = 3)"

text \<open>Modelled from the spec: the word written for a live and for a dead cell.\<close>

definition encode :: "bool \<Rightarrow> 32 word" where
  "encode b = (if b then 1 else 0)"

text \<open>Modelled from the spec: the new state of cell \<open>(x, y)\<close>, from the source buffer.\<close>

definition nextCell :: "nat \<Rightarrow> nat \<Rightarrow> 32 word list \<Rightarrow> nat \<Rightarrow> nat \<Rightarrow> 32 word" where
  "nextCell w h source x y =
     encode (transition (live (load source (cellIndex w x y))) (liveNeighbours w h source x y))"

text \<open>
  Modelled from the spec: one invocation of the compute program, on the device memory as
  it is when the invocation runs (spec 4.2). It reads the source slot and writes one cell
  of the destination slot; an invocation outside the logical grid writes nothing.
\<close>

definition invocation :: "nat \<Rightarrow> nat \<Rightarrow> nat \<times> nat \<Rightarrow> GridState \<Rightarrow> GridState" where
  "invocation src dst p g =
     (case p of (x, y) \<Rightarrow>
        if x < width g \<and> y < height g
        then setBuffer dst
               ((buffer g dst)[cellIndex (width g) x y :=
                  nextCell (width g) (height g) (buffer g src) x y]) g
        else g)"

text \<open>
  Modelled from the spec: the number of tiles per axis is
  \<open>ceil(gridDimension / tileEdge)\<close>, with the tile edge 8 of the source (spec 4.2),
  the host's \<^verbatim>\<open>WORKGROUP_SIZE\<close>.
\<close>

definition tiles :: "nat \<Rightarrow> nat" where
  "tiles d = nat \<lceil>real d / real WORKGROUP_SIZE\<rceil>"

text \<open>Modelled from the spec: the invocations of one dispatch, tile rows first (spec 4.2).\<close>

definition dispatch :: "nat \<Rightarrow> nat \<Rightarrow> (nat \<times> nat) list" where
  "dispatch w h =
     concat (map (\<lambda>y. map (\<lambda>x. (x, y)) [0..<tiles w * WORKGROUP_SIZE])
                 [0..<tiles h * WORKGROUP_SIZE])"

text \<open>
  Modelled from the spec: SimulationStep(source = buffer[src], destination = buffer[dst])
  (spec 4.2, 4.4): every invocation of the dispatch, run on the device memory.
\<close>

definition SimulationStep :: "GridState \<Rightarrow> nat \<Rightarrow> nat \<Rightarrow> GridState" where
  "SimulationStep g src dst = fold (invocation src dst) (dispatch (width g) (height g)) g"

text \<open>
  Modelled from the spec: a buffer that holds a pattern, the cells where \<open>P\<close> holds
  live (1) and all others dead (0).
\<close>

definition pattern :: "nat \<Rightarrow> nat \<Rightarrow> (nat \<Rightarrow> nat \<Rightarrow> bool) \<Rightarrow> 32 word list" where
  "pattern w h P = map (\<lambda>i. encode (P (i mod w) (i div w))) [0..<w * h]"

text \<open>
  Modelled from the spec: the blinker (spec 8), three live cells in a row centred at
  \<open>(cx, cy)\<close>, lying along a grid row or along a grid column.
\<close>

definition blinkerRow :: "nat \<Rightarrow> nat \<Rightarrow> nat \<Rightarrow> nat \<Rightarrow> bool" where
  "blinkerRow cx cy x y = (y = cy \<and> cx \<le> x + 1 \<and> x \<le> cx + 1)"

text \<open>Modelled from the spec: the blinker lying along a grid column (spec 8).\<close>

definition blinkerColumn :: "nat \<Rightarrow> nat \<Rightarrow> nat \<Rightarrow> nat \<Rightarrow> bool" where
  "blinkerColumn cx cy x y = (x = cx \<and> cy \<le> y + 1 \<and> y \<le> cy + 1)"

text \<open>
  Modelled from the spec: the block (spec 8), a 2 by 2 live square whose corner with the
  smallest coordinates is \<open>(px, py)\<close>.
\<close>

definition block :: "nat \<Rightarrow> nat \<Rightarrow> nat \<Rightarrow> nat \<Rightarrow> bool" where
  "block px py x y = (px \<le> x \<and> x \<le> px + 1 \<and> py \<le> y \<and> y \<le> py + 1)"

section \<open>The scheduler\<close>

lemma increment_le: "s \<le> 2 ^ 53 \<Longrightarrow> increment s \<le> 2 ^ 53"
  by (simp add: increment_def)

lemma step_updateGrid: "step (updateGrid h) = increment (step h)"
  by (simp add: updateGrid_def Let_def)

lemma step_ticks: "step (ticks n) = min n (2 ^ 53)"
proof (induction n)
  case 0
  show ?case by (simp add: initial_def)
next
  case (Suc n)
  show ?case
  proof (cases "n < 2 ^ 53")
    case True
    with Suc show ?thesis by (simp add: step_updateGrid increment_def)
  next
    case False
    with Suc show ?thesis by (simp add: step_updateGrid increment_def)
  qed
qed

lemma length_queue_ticks: "length (queue (ticks n)) = n"
  by (induction n) (simp_all add: initial_def updateGrid_def Let_def)

lemma queue_updateGrid_nth:
  "queue (updateGrid h) ! length (queue h) = last (queue (updateGrid h))"
  by (simp add: updateGrid_def Let_def)

lemma batch_last: "batch n = last (queue (updateGrid (ticks n)))"
  using queue_updateGrid_nth [of "ticks n"]
  by (simp add: batch_def length_queue_ticks)

lemma bindGroups_nth:
  "bindGroups ! (k mod 2) =
     \<lparr>label = (if even k then ''Cell renderer bind group A'' else ''Cell renderer bind group B''),
      entries = [(0, Grid_Uniforms), (1, cellStateStorage ! (k mod 2)),
                 (2, cellStateStorage ! (Suc k mod 2))]\<rparr>"
proof (cases "even k")
  case True
  then have "k mod 2 = 0" "Suc k mod 2 = 1" by presburger+
  with True show ?thesis by (simp add: bindGroups_def uniformBuffer_def)
next
  case False
  then have "k mod 2 = 1" "Suc k mod 2 = 0" by presburger+
  with False show ?thesis by (simp add: bindGroups_def uniformBuffer_def)
qed

lemma computeGroup_batch: "computeGroup (batch n) = Some (bindGroups ! (step (ticks n) mod 2))"
  by (simp add: batch_last updateGrid_def Let_def computeGroup_def)

lemma renderGroup_batch:
  "renderGroup (batch n) = Some (bindGroups ! (increment (step (ticks n)) mod 2))"
  by (simp add: batch_last updateGrid_def Let_def renderGroup_def)

lemma computeRoles_step:
  "computeRoles n =
     (Some (cellStateStorage ! (step (ticks n) mod 2)),
      Some (cellStateStorage ! (Suc (step (ticks n)) mod 2)))"
  by (simp add: computeRoles_def computeGroup_batch bindGroups_nth roles_def resource_def)

text \<open>
  Claim C1, as amended. For every tick \<open>n\<close> below \<open>2 ^ 53\<close> (ticks counted from 0)
  the counter is \<open>n\<close> when the tick starts and \<open>n + 1\<close> when it ends; the compute
  pass of tick \<open>n\<close> has \<open>cellStateStorage[n % 2]\<close> as source (binding 1) and
  \<open>cellStateStorage[(n + 1) % 2]\<close> as destination (binding 2); tick \<open>n + 1\<close> has
  the two swapped, so the pair of a tick is (A, B) or (B, A) and never the pair of the
  tick before. This covers the ticks 0 to \<open>2 ^ 53\<close>.
\<close>

theorem scheduler_alternation:
  "n < 2 ^ 53 \<Longrightarrow>
     step (ticks n) = n \<and> step (ticks (Suc n)) = Suc n \<and>
     computeRoles n = (Some (cellStateStorage ! (n mod 2)), Some (cellStateStorage ! ((n + 1) mod 2))) \<and>
     computeRoles (Suc n) =
       (Some (cellStateStorage ! ((n + 1) mod 2)), Some (cellStateStorage ! (n mod 2))) \<and>
     computeRoles (Suc n) \<noteq> computeRoles n \<and>
     (computeRoles n = (Some Cell_State_A, Some Cell_State_B) \<or>
      computeRoles n = (Some Cell_State_B, Some Cell_State_A))"
proof -
  assume n: "n < 2 ^ 53"
  have s: "step (ticks n) = n" "step (ticks (Suc n)) = Suc n"
    using n step_ticks [of n] step_ticks [of "Suc n"] by (simp_all del: ticks.simps)
  have m: "Suc (Suc n) mod 2 = n mod 2" by presburger
  show ?thesis
  proof (cases "even n")
    case True
    then have "n mod 2 = 0" "Suc n mod 2 = 1" by presburger+
    then show ?thesis
      by (simp add: computeRoles_step s m cellStateStorage_def del: ticks.simps)
  next
    case False
    then have "n mod 2 = 1" "Suc n mod 2 = 0" by presburger+
    then show ?thesis
      by (simp add: computeRoles_step s m cellStateStorage_def del: ticks.simps)
  qed
qed

theorem scheduler_alternation_witness:
  "step (ticks 3) = 3 \<and> step (ticks 4) = 4 \<and>
   computeRoles 3 = (Some Cell_State_B, Some Cell_State_A) \<and>
   computeRoles 4 = (Some Cell_State_A, Some Cell_State_B)"
  using scheduler_alternation [of 3] by (simp add: cellStateStorage_def del: ticks.simps)

text \<open>
  The claim as stated, for every tick, fails once the counter has reached \<open>2 ^ 53\<close>:
  \<^verbatim>\<open>step++\<close> no longer changes it, so tick \<open>2 ^ 53 + 1\<close> uses the pair (A, B) of
  tick \<open>2 ^ 53\<close> again, where \<open>(buffer[n % 2], buffer[(n + 1) % 2])\<close> is (B, A).
\<close>

theorem scheduler_stalls_counterexample:
  "step (ticks 9007199254740993) = 9007199254740992 \<and>
   computeRoles 9007199254740993 = (Some Cell_State_A, Some Cell_State_B) \<and>
   computeRoles 9007199254740992 = (Some Cell_State_A, Some Cell_State_B) \<and>
   (Some (cellStateStorage ! (9007199254740993 mod 2)),
    Some (cellStateStorage ! ((9007199254740993 + 1) mod 2))) = (Some Cell_State_B, Some Cell_State_A)"
  by (simp add: computeRoles_step step_ticks cellStateStorage_def del: ticks.simps)

section \<open>One batch per tick\<close>

lemma isCompute_batch: "map (map isCompute) (batch n) = [[True, False]]"
  by (simp add: batch_last updateGrid_def Let_def)

lemma queue_ticks_Suc: "queue (ticks (Suc n)) = queue (ticks n) @ [batch n]"
  by (simp add: batch_last) (simp add: updateGrid_def Let_def)

lemma reachable_render:
  "reachable {VERTEX, FRAGMENT} {read_only_storage, storage} (bindGroups ! (k mod 2)) =
     [cellStateStorage ! (k mod 2)]"
  by (simp add: reachable_def bindGroupLayout_def bindGroups_nth resource_def)

lemma reachable_compute:
  "reachable {COMPUTE} {storage} (bindGroups ! (k mod 2)) = [cellStateStorage ! (Suc k mod 2)]"
  by (simp add: reachable_def bindGroupLayout_def bindGroups_nth resource_def)

text \<open>
  Claim C2, as amended. Every tick \<open>n\<close> adds exactly one submission to the queue, of
  one command buffer that holds the compute pass and then the render pass, and the
  compute pass writes \<open>cellStateStorage[(step + 1) % 2]\<close> for the value of
  \<^verbatim>\<open>step\<close> before the increment. For every tick below \<open>2 ^ 53\<close> that value is
  \<open>n\<close> and the only cell-state buffer the stages of the render pass can reach is the
  buffer the compute pass of the same tick wrote.
\<close>

theorem compute_then_render_one_batch:
  "queue (ticks (Suc n)) = queue (ticks n) @ [batch n] \<and>
   map (map isCompute) (batch n) = [[True, False]] \<and>
   computeWrites (batch n) = [cellStateStorage ! ((step (ticks n) + 1) mod 2)] \<and>
   (n < 2 ^ 53 \<longrightarrow>
      step (ticks n) = n \<and>
      renderReads (batch n) = [cellStateStorage ! ((n + 1) mod 2)] \<and>
      renderReads (batch n) = computeWrites (batch n))"
proof -
  have w: "computeWrites (batch n) = [cellStateStorage ! ((step (ticks n) + 1) mod 2)]"
    by (simp add: computeWrites_def computeGroup_batch reachable_compute)
  have r: "renderReads (batch n) = [cellStateStorage ! (increment (step (ticks n)) mod 2)]"
    by (simp add: renderReads_def renderGroup_batch reachable_render)
  have "step (ticks n) = n \<and> renderReads (batch n) = [cellStateStorage ! ((n + 1) mod 2)] \<and>
        renderReads (batch n) = computeWrites (batch n)" if "n < 2 ^ 53"
  proof -
    from that have "step (ticks n) = n" by (simp add: step_ticks)
    moreover from that have "increment n = n + 1" by (simp add: increment_def)
    ultimately show ?thesis using w r by simp
  qed
  with w show ?thesis
    using queue_ticks_Suc [of n] isCompute_batch [of n] by (simp del: ticks.simps)
qed

theorem compute_then_render_one_batch_witness:
  "queue (ticks 6) = queue (ticks 5) @ [batch 5] \<and>
   map (map isCompute) (batch 5) = [[True, False]] \<and>
   computeWrites (batch 5) = [Cell_State_A] \<and>
   renderReads (batch 5) = [Cell_State_A]"
  using compute_then_render_one_batch [of 5]
  by (simp add: cellStateStorage_def del: ticks.simps)

text \<open>
  The claim as stated, for every tick, fails at tick \<open>2 ^ 53\<close>: the counter is
  \<open>2 ^ 53\<close> before and after \<^verbatim>\<open>step++\<close>, so the compute pass writes buffer B and
  the render pass that follows it reads buffer A.
\<close>

theorem render_reads_stale_counterexample:
  "step (ticks 9007199254740992) = 9007199254740992 \<and>
   computeWrites (batch 9007199254740992) = [Cell_State_B] \<and>
   renderReads (batch 9007199254740992) = [Cell_State_A]"
  using reachable_compute [of 0] reachable_render [of 0]
  by (simp add: computeWrites_def computeGroup_batch renderReads_def renderGroup_batch
      step_ticks increment_def cellStateStorage_def del: ticks.simps)

section \<open>The draw call\<close>

text \<open>
  Claim C10. \<^verbatim>\<open>updateGrid\<close> reads nothing but \<^verbatim>\<open>step\<close>: the program never
  reads a buffer back, so the contents of the cell-state buffers are no input of it.
  From any host state, and so in every tick, the batch holds exactly one draw call, of
  \<open>vertices.length / 2 = 6\<close> vertices (the array has 12 elements, so the division is
  exact) and \<open>GRID_SIZE * GRID_SIZE = 65536\<close> instances.
\<close>

theorem draw_call_fixed:
  "draws (last (queue (updateGrid h))) = [(6, 65536)] \<and>
   draws (batch n) = [(length vertices div 2, GRID_SIZE * GRID_SIZE)] \<and>
   length vertices = 12 \<and> length vertices div 2 = 6 \<and> GRID_SIZE * GRID_SIZE = 65536"
  by (simp add: batch_last updateGrid_def Let_def draws_def vertices_def GRID_SIZE_def)

theorem draw_call_fixed_witness:
  "draws (last (queue (updateGrid \<lparr>step = 7, queue = []\<rparr>))) = [(6, 65536)] \<and>
   draws (batch 0) = [(6, 65536)]"
  using draw_call_fixed [of "\<lparr>step = 7, queue = []\<rparr>" 0] by simp

section \<open>Start-up\<close>

text \<open>
  Claim C6. When \<^verbatim>\<open>navigator.gpu\<close> is missing, or \<^verbatim>\<open>requestAdapter()\<close> gives
  no adapter, the script ends with the one \<^verbatim>\<open>Error\<close> of the failed check. Until
  then it has made at most the single adapter request: it has created no shader module,
  pipeline layout or pipeline and has not called \<^verbatim>\<open>setInterval\<close>, and however often
  the timer would have fired, the program is still just that error.
\<close>

theorem capability_error_is_fatal:
  "\<not> navigator_gpu env \<or> \<not> adapter env \<Longrightarrow>
     snd (startup env) =
       Inl (Error (if navigator_gpu env then ''No appropriate GPUAdapter found.''
                   else ''WebGPU not supported on this browser.'')) \<and>
     fst (startup env) = (if navigator_gpu env then [RequestAdapter] else []) \<and>
     filter constructsPipeline (fst (startup env)) = [] \<and>
     filter schedulesTick (fst (startup env)) = [] \<and>
     run env n = snd (startup env)"
  by (auto simp add: startup_def run_def)

theorem capability_error_is_fatal_witness:
  "run \<lparr>navigator_gpu = True, adapter = False, device = True, canvas = True,
        canvas_context = True, random = (\<lambda>k. 0)\<rparr> 10 =
     Inl (Error ''No appropriate GPUAdapter found.'') \<and>
   fst (startup \<lparr>navigator_gpu = True, adapter = False, device = True, canvas = True,
        canvas_context = True, random = (\<lambda>k. 0)\<rparr>) = [RequestAdapter] \<and>
   run \<lparr>navigator_gpu = False, adapter = True, device = True, canvas = True,
        canvas_context = True, random = (\<lambda>k. 0)\<rparr> 10 =
     Inl (Error ''WebGPU not supported on this browser.'') \<and>
   fst (startup \<lparr>navigator_gpu = False, adapter = True, device = True, canvas = True,
        canvas_context = True, random = (\<lambda>k. 0)\<rparr>) = []"
  using capability_error_is_fatal [of "\<lparr>navigator_gpu = True, adapter = False, device = True,
        canvas = True, canvas_context = True, random = (\<lambda>k. 0)\<rparr>" 10]
    capability_error_is_fatal [of "\<lparr>navigator_gpu = False, adapter = True, device = True,
        canvas = True, canvas_context = True, random = (\<lambda>k. 0)\<rparr>" 10]
  by simp

section \<open>Seeding\<close>

lemma seedLoop_eq:
  "i \<le> length a \<Longrightarrow>
     seedLoop rnd i a = take i a @ map (\<lambda>k. if rnd k > 0.6 then 1 else 0) [i..<length a]"
proof (induction rnd i a rule: seedLoop.induct)
  case (1 rnd i a)
  show ?case
  proof (cases "i < length a")
    case True
    let ?a' = "a[i := (if rnd i > 0.6 then 1 else 0)]"
    have "seedLoop rnd i a = seedLoop rnd (i + 1) ?a'"
      using True by (subst seedLoop.simps) simp
    also have "\<dots> = take (i + 1) ?a' @ map (\<lambda>k. if rnd k > 0.6 then 1 else 0) [i + 1..<length ?a']"
      using "1.IH" [OF True] True by simp
    also have "take (i + 1) ?a' = take i a @ [if rnd i > 0.6 then 1 else 0]"
      using True by (simp add: take_Suc_conv_app_nth)
    finally show ?thesis using True by (simp add: upt_conv_Cons)
  next
    case False
    with "1.prems" show ?thesis by (subst seedLoop.simps) simp
  qed
qed

lemma cellStateArray_eq:
  "cellStateArray rnd = map (\<lambda>k. if rnd k > 0.6 then 1 else 0) [0..<GRID_SIZE * GRID_SIZE]"
  by (simp add: cellStateArray_def seedLoop_eq)


lemma hostWrites_construct:
  "hostWrites Cell_State_A (construct rnd) = [(0, Uint32Array (cellStateArray rnd))] \<and>
   hostWrites Cell_State_B (construct rnd) = []"
  by (simp add: hostWrites_def construct_def cellStateStorage_def vertexBuffer_def
      uniformBuffer_def)

lemma hostWrites_B_startup: "hostWrites Cell_State_B (fst (startup env)) = []"
  using hostWrites_construct [of "random env"]
  by (simp add: startup_def hostWrites_def)

text \<open>
  Claim C7. The array written to buffer A has one entry per cell; entry \<open>i\<close> is 1 iff
  draw \<open>i\<close> exceeds 0.6 and 0 otherwise, and does not change when any other draw is
  changed. The draws in \<open>[0, 1)\<close> that make a cell live are exactly those in the
  interval \<open>(0.6, 1)\<close>, of length 0.4. The host never writes buffer B, and when
  start-up succeeds its one write to buffer A is this array, at offset 0.
\<close>

theorem seeding:
  "i < GRID_SIZE * GRID_SIZE \<Longrightarrow>
     length (cellStateArray rnd) = GRID_SIZE * GRID_SIZE \<and>
     cellStateArray rnd ! i = (if rnd i > 0.6 then 1 else 0) \<and>
     (j \<noteq> i \<longrightarrow> cellStateArray (rnd(j := r)) ! i = cellStateArray rnd ! i) \<and>
     {d. 0 \<le> d \<and> d < 1 \<and> cellStateArray (\<lambda>k. d) ! i = 1} = {d. 0.6 < d \<and> d < 1} \<and>
     hostWrites Cell_State_B (fst (startup env)) = [] \<and>
     (navigator_gpu env \<and> adapter env \<and> device env \<and> canvas env \<and> canvas_context env \<longrightarrow>
        snd (startup env) = Inr initial \<and>
        hostWrites Cell_State_A (fst (startup env)) =
          [(0, Uint32Array (cellStateArray (random env)))])"
proof -
  assume i: "i < GRID_SIZE * GRID_SIZE"
  have cell: "cellStateArray f ! i = (if f i > 0.6 then 1 else 0)" for f
    using i by (simp add: cellStateArray_eq del: upt_Suc)
  have "{d. 0 \<le> d \<and> d < 1 \<and> cellStateArray (\<lambda>k. d) ! i = 1} = {d::real. 0.6 < d \<and> d < 1}"
    by (auto simp add: cell)
  moreover have "hostWrites Cell_State_A (fst (startup env)) =
      [(0, Uint32Array (cellStateArray (random env)))] \<and> snd (startup env) = Inr initial"
    if "navigator_gpu env \<and> adapter env \<and> device env \<and> canvas env \<and> canvas_context env"
    using that hostWrites_construct [of "random env"] by (simp add: startup_def hostWrites_def)
  ultimately show ?thesis
    using hostWrites_B_startup [of env] by (simp add: cell) (simp add: cellStateArray_eq)
qed

theorem seeding_witness:
  "cellStateArray (\<lambda>k. if even k then 0.7 else 0.2) ! 2 = 1 \<and>
   cellStateArray (\<lambda>k. if even k then 0.7 else 0.2) ! 3 = 0 \<and>
   length (cellStateArray (\<lambda>k. if even k then 0.7 else 0.2)) = 65536"
  using seeding [of 2 "\<lambda>k. if even k then 0.7 else 0.2"]
    seeding [of 3 "\<lambda>k. if even k then 0.7 else 0.2"]
  by (simp add: GRID_SIZE_def)

section \<open>The colour of a cell\<close>



section \<open>The render pass changes no buffer\<close>

lemma not_writable_render: "stage s \<in> {VERTEX, FRAGMENT} \<Longrightarrow> \<not> writable (stage s) b"
  by (auto simp add: writable_def bindGroupLayout_def)

lemma performStore_id: "performStore g s mem = mem"
  using not_writable_render [of s "target s"] by (auto simp add: performStore_def)

lemma FrameRenderer_id: "FrameRenderer g program mem = mem"
  unfolding FrameRenderer_def by (induction program) (simp_all add: performStore_id)

text \<open>
  Claim C9. In every tick the render pass, whatever its shaders attempt to store, leaves
  the contents of every buffer as they were, the two cell-state buffers and the uniform
  buffer among them. Through the bind group it has bound, the vertex and fragment stages
  reach no writable binding, one read-only storage buffer, the one that is current after
  the increment of \<^verbatim>\<open>step\<close>, and the uniform buffer through a uniform binding. The
  only writable entry of the layout is binding 2, and it is visible to the compute stage
  alone.
\<close>

theorem render_pass_frame:
  "(case renderGroup (batch n) of
      None \<Rightarrow> False
    | Some g \<Rightarrow>
        FrameRenderer g program mem = mem \<and>
        reachable {VERTEX, FRAGMENT} {storage} g = [] \<and>
        reachable {VERTEX, FRAGMENT} {read_only_storage} g =
          [cellStateStorage ! (step (ticks (Suc n)) mod 2)] \<and>
        reachable {VERTEX, FRAGMENT} {uniform} g = [Grid_Uniforms]) \<and>
   filter (\<lambda>e. buffer_type e = storage) bindGroupLayout =
     [\<lparr>binding = 2, visibility = {COMPUTE}, buffer_type = storage\<rparr>] \<and>
   filter (\<lambda>e. binding e = 2 \<and> visibility e \<inter> {VERTEX, FRAGMENT} \<noteq> {}) bindGroupLayout = []"
proof -
  have "reachable {VERTEX, FRAGMENT} {storage} (bindGroups ! (k mod 2)) = [] \<and>
        reachable {VERTEX, FRAGMENT} {read_only_storage} (bindGroups ! (k mod 2)) =
          [cellStateStorage ! (k mod 2)] \<and>
        reachable {VERTEX, FRAGMENT} {uniform} (bindGroups ! (k mod 2)) = [Grid_Uniforms]" for k
    by (simp add: reachable_def bindGroupLayout_def bindGroups_nth resource_def)
  then show ?thesis
    by (simp add: renderGroup_batch step_updateGrid FrameRenderer_id bindGroupLayout_def)
qed

theorem render_pass_frame_witness:
  "(case renderGroup (batch 0) of
      None \<Rightarrow> False
    | Some g \<Rightarrow>
        FrameRenderer g [\<lparr>stage = VERTEX, target = 2, update = (\<lambda>c. c + 1)\<rparr>] (\<lambda>b. 0::nat) = (\<lambda>b. 0) \<and>
        reachable {VERTEX, FRAGMENT} {read_only_storage} g = [Cell_State_B])"
  using render_pass_frame [where n = 0 and mem = "\<lambda>b. 0::nat"
      and program = "[\<lparr>stage = VERTEX, target = 2, update = (\<lambda>c. c + 1)\<rparr>]"]
  by (simp add: renderGroup_batch step_updateGrid initial_def increment_def
      cellStateStorage_def split: option.splits)

section \<open>One simulation step\<close>

lemma tiles_cover: "d \<le> tiles d * WORKGROUP_SIZE"
proof -
  have "real d \<le> 8 * real_of_int \<lceil>real d / 8\<rceil>"
    using le_of_int_ceiling [of "real d / 8"] by linarith
  then have "real_of_int (int d) \<le> real_of_int (8 * \<lceil>real d / 8\<rceil>)"
    by simp
  then have "int d \<le> 8 * \<lceil>real d / 8\<rceil>"
    by (simp only: of_int_le_iff)
  then show ?thesis
    by (simp add: tiles_def WORKGROUP_SIZE_def)
qed

lemma set_dispatch:
  "set (dispatch w h) = {(x, y). x < tiles w * WORKGROUP_SIZE \<and> y < tiles h * WORKGROUP_SIZE}"
  by (auto simp add: dispatch_def)

lemma dispatch_covers: "x < w \<Longrightarrow> y < h \<Longrightarrow> (x, y) \<in> set (dispatch w h)"
  using tiles_cover [of w] tiles_cover [of h] by (simp add: set_dispatch)

lemma invocation_frame:
  "(src = 0) \<noteq> (dst = 0) \<Longrightarrow>
     width (invocation src dst p g) = width g \<and>
     height (invocation src dst p g) = height g \<and>
     buffer (invocation src dst p g) src = buffer g src"
  by (cases p) (auto simp add: invocation_def setBuffer_def buffer_def)

lemma invocation_destination:
  "buffer (invocation src dst p g) dst =
     (if fst p < width g \<and> snd p < height g
      then (buffer g dst)[cellIndex (width g) (fst p) (snd p) :=
             nextCell (width g) (height g) (buffer g src) (fst p) (snd p)]
      else buffer g dst)"
  by (cases p) (auto simp add: invocation_def setBuffer_def buffer_def)

lemma invocation_other:
  "(src = 0) \<noteq> (dst = 0) \<Longrightarrow>
     invocation src dst p g =
       setBuffer dst (buffer (invocation src dst p g) dst) g"
  by (cases p) (auto simp add: invocation_def setBuffer_def buffer_def)

lemma fold_invocation:
  "(src = 0) \<noteq> (dst = 0) \<Longrightarrow>
     width (fold (invocation src dst) ps g) = width g \<and>
     height (fold (invocation src dst) ps g) = height g \<and>
     buffer (fold (invocation src dst) ps g) src = buffer g src \<and>
     buffer (fold (invocation src dst) ps g) dst =
       fold (\<lambda>p d. if fst p < width g \<and> snd p < height g
                    then d[cellIndex (width g) (fst p) (snd p) :=
                           nextCell (width g) (height g) (buffer g src) (fst p) (snd p)]
                    else d) ps (buffer g dst)"
proof (induction ps arbitrary: g)
  case Nil
  show ?case by simp
next
  case (Cons p ps)
  from Cons.prems have f: "width (invocation src dst p g) = width g"
    "height (invocation src dst p g) = height g"
    "buffer (invocation src dst p g) src = buffer g src"
    by (simp_all add: invocation_frame)
  show ?case
    using Cons.IH [OF Cons.prems, of "invocation src dst p g"]
    by (simp add: f invocation_destination cong: if_cong)
qed

lemma fold_update_nth:
  "(\<And>p. p \<in> set ps \<Longrightarrow> ok p \<Longrightarrow> v p = F (idx p)) \<Longrightarrow>
     length (fold (\<lambda>p d. if ok p then d[idx p := v p] else d) ps d) = length d \<and>
     (\<forall>i<length d. fold (\<lambda>p d. if ok p then d[idx p := v p] else d) ps d ! i =
        (if \<exists>p\<in>set ps. ok p \<and> idx p = i then F i else d ! i))"
proof (induction ps arbitrary: d)
  case Nil
  show ?case by simp
next
  case (Cons p ps)
  let ?d = "if ok p then d[idx p := v p] else d"
  have v: "ok p \<Longrightarrow> v p = F (idx p)"
    using Cons.prems by simp
  have ih: "length (fold (\<lambda>p d. if ok p then d[idx p := v p] else d) ps ?d) = length ?d \<and>
     (\<forall>i<length ?d. fold (\<lambda>p d. if ok p then d[idx p := v p] else d) ps ?d ! i =
        (if \<exists>p\<in>set ps. ok p \<and> idx p = i then F i else ?d ! i))"
    by (rule Cons.IH) (simp add: Cons.prems)
  show ?case
  proof (cases "ok p")
    case True
    with ih v show ?thesis by (auto simp add: nth_list_update)
  next
    case False
    with ih show ?thesis by auto
  qed
qed

lemma cellIndex_mod_div:
  "x < w \<Longrightarrow> cellIndex w x y mod w = x \<and> cellIndex w x y div w = y"
  by (simp add: cellIndex_def)

lemma cell_in_range: "x < w \<Longrightarrow> y < h \<Longrightarrow> cellIndex w x y < w * h"
proof -
  assume x: "x < w" and y: "y < h"
  from x have "y * w + x < Suc y * w" by simp
  also from y have "Suc y * w \<le> h * w" by (intro mult_le_mono1) simp
  finally show ?thesis by (simp add: cellIndex_def mult.commute)
qed

lemma SimulationStep_destination:
  assumes "wellFormed g" and "(src = 0) \<noteq> (dst = 0)"
  shows "buffer (SimulationStep g src dst) dst =
     map (\<lambda>i. nextCell (width g) (height g) (buffer g src) (i mod width g) (i div width g))
       [0..<width g * height g]"
proof (rule nth_equalityI)
  let ?w = "width g" and ?h = "height g"
  let ?F = "\<lambda>i. nextCell ?w ?h (buffer g src) (i mod ?w) (i div ?w)"
  let ?ok = "\<lambda>p. fst p < ?w \<and> snd p < ?h"
  let ?idx = "\<lambda>p. cellIndex ?w (fst p) (snd p)"
  let ?v = "\<lambda>p. nextCell ?w ?h (buffer g src) (fst p) (snd p)"
  have len: "length (buffer g dst) = ?w * ?h"
    using assms(1) by (simp add: wellFormed_def buffer_def)
  have eq: "buffer (SimulationStep g src dst) dst =
      fold (\<lambda>p d. if ?ok p then d[?idx p := ?v p] else d) (dispatch ?w ?h) (buffer g dst)"
    using fold_invocation [OF assms(2), of "dispatch ?w ?h" g] by (simp add: SimulationStep_def)
  have main: "length (fold (\<lambda>p d. if ?ok p then d[?idx p := ?v p] else d) (dispatch ?w ?h) (buffer g dst))
        = length (buffer g dst) \<and>
     (\<forall>i<length (buffer g dst).
        fold (\<lambda>p d. if ?ok p then d[?idx p := ?v p] else d) (dispatch ?w ?h) (buffer g dst) ! i =
        (if \<exists>p\<in>set (dispatch ?w ?h). ?ok p \<and> ?idx p = i then ?F i else buffer g dst ! i))"
    by (rule fold_update_nth) (simp add: cellIndex_mod_div)
  show "length (buffer (SimulationStep g src dst) dst) = length (map ?F [0..<?w * ?h])"
    using main by (simp add: eq len)
  fix i
  assume "i < length (buffer (SimulationStep g src dst) dst)"
  then have i: "i < ?w * ?h" using main by (simp add: eq len)
  then have w: "0 < ?w" by (cases "?w") simp_all
  have x: "i mod ?w < ?w" using w by simp
  have y: "i div ?w < ?h" using i by (simp add: less_mult_imp_div_less mult.commute)
  have "(i mod ?w, i div ?w) \<in> set (dispatch ?w ?h)"
    using x y by (rule dispatch_covers)
  moreover have "?ok (i mod ?w, i div ?w) \<and> ?idx (i mod ?w, i div ?w) = i"
    using x y by (simp add: cellIndex_def)
  ultimately have "\<exists>p\<in>set (dispatch ?w ?h). ?ok p \<and> ?idx p = i" by blast
  then have "fold (\<lambda>p d. if ?ok p then d[?idx p := ?v p] else d) (dispatch ?w ?h) (buffer g dst) ! i = ?F i"
    using main i len by simp
  then show "buffer (SimulationStep g src dst) dst ! i = map ?F [0..<?w * ?h] ! i"
    using i by (simp add: eq del: upt_Suc)
qed

lemma slots: "src < (2::nat) \<Longrightarrow> dst < 2 \<Longrightarrow> src \<noteq> dst \<Longrightarrow> (src = 0) \<noteq> (dst = 0)"
  by (auto simp add: less_2_cases_iff)

lemma SimulationStep_frame:
  "(src = 0) \<noteq> (dst = 0) \<Longrightarrow>
     width (SimulationStep g src dst) = width g \<and>
     height (SimulationStep g src dst) = height g \<and>
     buffer (SimulationStep g src dst) src = buffer g src"
  using fold_invocation [of src dst "dispatch (width g) (height g)" g]
  by (simp add: SimulationStep_def)

lemma live_encode: "live (encode b) = b"
  by (simp add: live_def encode_def)

lemma GridState_eqI:
  "width g = width g' \<Longrightarrow> height g = height g' \<Longrightarrow> buffer g 0 = buffer g' 0 \<Longrightarrow>
     buffer g 1 = buffer g' 1 \<Longrightarrow> g = (g' :: GridState)"
  by (simp add: buffer_def)

lemma setBuffer_simps:
  "width (setBuffer i b g) = width g" "height (setBuffer i b g) = height g"
  "buffer (setBuffer i b g) i = b"
  "(i = 0) \<noteq> (j = 0) \<Longrightarrow> buffer (setBuffer i b g) j = buffer g j"
  by (auto simp add: setBuffer_def buffer_def)

text \<open>
  Claim C3. On a well-formed grid, for the two slots in either order and every cell
  \<open>(x, y)\<close>: after one step the destination holds a live cell there iff the source
  had a live cell with exactly 2 or 3 live neighbours, or a dead cell with exactly 3
  (dead in every other case), all read from the source as it was before the step; the
  word written is 0 or 1. The source slot and the dimensions are unchanged, the grid
  stays well-formed, and the result of the step is the same whatever the destination
  held before, so nothing the step writes is read by it.
\<close>

theorem simulation_step_rule:
  assumes "wellFormed g" and "src < 2" and "dst < 2" and "src \<noteq> dst"
    and "x < width g" and "y < height g"
  shows "(live (buffer (SimulationStep g src dst) dst ! cellIndex (width g) x y)
        \<longleftrightarrow>
          (live (buffer g src ! cellIndex (width g) x y) \<and>
             (liveNeighbours (width g) (height g) (buffer g src) x y = 2 \<or>
              liveNeighbours (width g) (height g) (buffer g src) x y = 3)) \<or>
          (\<not> live (buffer g src ! cellIndex (width g) x y) \<and>
             liveNeighbours (width g) (height g) (buffer g src) x y = 3)) \<and>
     buffer (SimulationStep g src dst) dst ! cellIndex (width g) x y \<in> {0, 1} \<and>
     buffer (SimulationStep g src dst) src = buffer g src \<and>
     wellFormed (SimulationStep g src dst) \<and>
     width (SimulationStep g src dst) = width g \<and>
     height (SimulationStep g src dst) = height g \<and>
     (length other = width g * height g \<longrightarrow>
        SimulationStep (setBuffer dst other g) src dst = SimulationStep g src dst)"
proof -
  let ?w = "width g" and ?h = "height g"
  let ?g = "SimulationStep g src dst"
  have sd: "(src = 0) \<noteq> (dst = 0)"
    using assms(2-4) by (rule slots)
  have dst01: "dst = 0 \<or> dst = 1" and src01: "src = 0 \<or> src = 1"
    using assms(2,3) by auto
  have fr: "width ?g = ?w" "height ?g = ?h" "buffer ?g src = buffer g src"
    using SimulationStep_frame [OF sd, of g] by simp_all
  have d: "buffer ?g dst =
      map (\<lambda>i. nextCell ?w ?h (buffer g src) (i mod ?w) (i div ?w)) [0..<?w * ?h]"
    using assms(1) sd by (rule SimulationStep_destination)
  have i: "cellIndex ?w x y < ?w * ?h"
    using assms(5,6) by (rule cell_in_range)
  have srclen: "length (buffer g src) = ?w * ?h"
    using assms(1) by (simp add: wellFormed_def buffer_def)
  have cell: "buffer ?g dst ! cellIndex ?w x y = nextCell ?w ?h (buffer g src) x y"
    using i cellIndex_mod_div [OF assms(5), of y] by (simp add: d del: upt_Suc)
  have rule: "live (buffer ?g dst ! cellIndex ?w x y) \<longleftrightarrow>
          (live (buffer g src ! cellIndex ?w x y) \<and>
             (liveNeighbours ?w ?h (buffer g src) x y = 2 \<or>
              liveNeighbours ?w ?h (buffer g src) x y = 3)) \<or>
          (\<not> live (buffer g src ! cellIndex ?w x y) \<and>
             liveNeighbours ?w ?h (buffer g src) x y = 3)"
    using i by (auto simp add: cell nextCell_def live_encode transition_def load_def srclen)
  have bit: "buffer ?g dst ! cellIndex ?w x y \<in> {0, 1}"
    by (simp add: cell nextCell_def encode_def)
  have wf: "wellFormed ?g"
  proof -
    have "length (buffer ?g dst) = ?w * ?h" by (simp add: d)
    moreover have "length (buffer ?g src) = ?w * ?h" by (simp add: fr srclen)
    ultimately show ?thesis
      using assms(1) sd fr(1,2) by (auto simp add: wellFormed_def buffer_def)
  qed
  have indep: "SimulationStep (setBuffer dst other g) src dst = ?g"
    if len: "length other = ?w * ?h"
  proof -
    let ?init = "setBuffer dst other g"
    have wf0: "wellFormed ?init"
      using assms(1) len by (auto simp add: wellFormed_def setBuffer_def)
    have s0: "buffer ?init src = buffer g src" "width ?init = ?w" "height ?init = ?h"
      using sd by (simp_all add: setBuffer_simps)
    have d0: "buffer (SimulationStep ?init src dst) dst = buffer ?g dst"
      using SimulationStep_destination [OF wf0 sd] by (simp only: s0 d)
    have f0: "width (SimulationStep ?init src dst) = ?w" "height (SimulationStep ?init src dst) = ?h"
      "buffer (SimulationStep ?init src dst) src = buffer g src"
      using SimulationStep_frame [OF sd, of ?init] by (simp_all add: s0)
    show ?thesis
    proof (rule GridState_eqI)
      show "width (SimulationStep ?init src dst) = width ?g" by (simp add: f0 fr)
      show "height (SimulationStep ?init src dst) = height ?g" by (simp add: f0 fr)
      show "buffer (SimulationStep ?init src dst) 0 = buffer ?g 0"
        using dst01 src01 sd d0 f0(3) fr(3) by auto
      show "buffer (SimulationStep ?init src dst) 1 = buffer ?g 1"
        using dst01 src01 sd d0 f0(3) fr(3) by auto
    qed
  qed
  from rule bit fr wf indep show ?thesis by simp
qed

theorem simulation_step_rule_witness:
  "wellFormed \<lparr>width = 3, height = 3, bufferA = [0, 1, 0, 0, 1, 0, 0, 1, 0],
              bufferB = [7, 7, 7, 7, 7, 7, 7, 7, 7]\<rparr> \<and>
   liveNeighbours 3 3 [0, 1, 0, 0, 1, 0, 0, 1, 0] 1 1 = 2 \<and>
   live (buffer (SimulationStep \<lparr>width = 3, height = 3, bufferA = [0, 1, 0, 0, 1, 0, 0, 1, 0],
              bufferB = [7, 7, 7, 7, 7, 7, 7, 7, 7]\<rparr> 0 1) 1 ! 4) \<and>
   buffer (SimulationStep \<lparr>width = 3, height = 3, bufferA = [0, 1, 0, 0, 1, 0, 0, 1, 0],
              bufferB = [7, 7, 7, 7, 7, 7, 7, 7, 7]\<rparr> 0 1) 0 = [0, 1, 0, 0, 1, 0, 0, 1, 0]"
proof -
  have n: "liveNeighbours 3 3 [0, 1, 0, 0, 1, 0, 0, 1, 0] 1 1 = 2"
    by (simp add: liveNeighbours_def neighbours_def offsets_def wrap_def cellIndex_def
        load_def live_def)
  show ?thesis
    using n simulation_step_rule [of "\<lparr>width = 3, height = 3, bufferA = [0, 1, 0, 0, 1, 0, 0, 1, 0],
              bufferB = [7, 7, 7, 7, 7, 7, 7, 7, 7]\<rparr>" 0 1 1 1 "[]"]
    by (simp add: wellFormed_def buffer_def cellIndex_def live_def)
qed

section \<open>Neighbours on the torus\<close>

lemma wrap_pred: "x < n \<Longrightarrow> wrap n (int x + - 1) = (if x = 0 then n - 1 else x - 1)"
  by (auto simp add: wrap_def nat_mod_distrib zmod_minus1 nat_diff_distrib)

lemma wrap_same: "x < n \<Longrightarrow> wrap n (int x + 0) = x"
  by (simp add: wrap_def nat_mod_distrib)

lemma wrap_succ: "x < n \<Longrightarrow> wrap n (int x + 1) = (if Suc x = n then 0 else Suc x)"
  by (auto simp add: wrap_def nat_mod_distrib nat_add_distrib)

lemma neighbours_eq:
  "x < w \<Longrightarrow> y < h \<Longrightarrow>
     neighbours w h x y =
       [(if x = 0 then w - 1 else x - 1, if y = 0 then h - 1 else y - 1),
        (x, if y = 0 then h - 1 else y - 1),
        (if Suc x = w then 0 else Suc x, if y = 0 then h - 1 else y - 1),
        (if x = 0 then w - 1 else x - 1, y),
        (if Suc x = w then 0 else Suc x, y),
        (if x = 0 then w - 1 else x - 1, if Suc y = h then 0 else Suc y),
        (x, if Suc y = h then 0 else Suc y),
        (if Suc x = w then 0 else Suc x, if Suc y = h then 0 else Suc y)]"
  using wrap_pred [of x w] wrap_pred [of y h] wrap_same [of x w] wrap_same [of y h]
    wrap_succ [of x w] wrap_succ [of y h]
  by (simp add: neighbours_def offsets_def)

lemma wrap_less: "0 < n \<Longrightarrow> wrap n k < n"
  by (simp add: wrap_def nat_less_iff)

lemma neighbours_in_range:
  "0 < w \<Longrightarrow> 0 < h \<Longrightarrow> list_all (\<lambda>(nx, ny). nx < w \<and> ny < h) (neighbours w h x y)"
  by (simp add: neighbours_def offsets_def wrap_less)




section \<open>Patterns\<close>

lemma length_pattern: "length (pattern w h P) = w * h"
  by (simp add: pattern_def)

lemma load_pattern:
  "x < w \<Longrightarrow> y < h \<Longrightarrow> load (pattern w h P) (cellIndex w x y) = encode (P x y)"
  using cell_in_range [of x w y h] cellIndex_mod_div [of x w y]
  by (simp add: load_def length_pattern) (simp add: pattern_def del: upt_Suc)

lemma count_pattern:
  "list_all (\<lambda>(nx, ny). nx < w \<and> ny < h) ps \<Longrightarrow>
     length (filter (\<lambda>(nx, ny). live (load (pattern w h P) (cellIndex w nx ny))) ps) =
     sum_list (map (\<lambda>(nx, ny). if P nx ny then 1 else 0) ps)"
  by (induction ps) (auto simp add: load_pattern live_encode)

lemma nextCell_pattern:
  assumes "x < w" and "y < h"
  shows "nextCell w h (pattern w h P) x y =
     encode (transition (P x y)
       (sum_list (map (\<lambda>(nx, ny). if P nx ny then 1 else 0) (neighbours w h x y))))"
proof -
  have "0 < w" "0 < h" using assms by auto
  then have "list_all (\<lambda>(nx, ny). nx < w \<and> ny < h) (neighbours w h x y)"
    by (rule neighbours_in_range)
  then show ?thesis
    using assms by (simp add: nextCell_def liveNeighbours_def count_pattern load_pattern live_encode)
qed

lemma step_pattern:
  assumes "wellFormed g" and "(src = 0) \<noteq> (dst = 0)"
    and "buffer g src = pattern (width g) (height g) P"
    and "\<And>x y. x < width g \<Longrightarrow> y < height g \<Longrightarrow>
           transition (P x y)
             (sum_list (map (\<lambda>(nx, ny). if P nx ny then 1 else 0)
                (neighbours (width g) (height g) x y))) = Q x y"
  shows "buffer (SimulationStep g src dst) dst = pattern (width g) (height g) Q"
proof -
  let ?w = "width g" and ?h = "height g"
  have "nextCell ?w ?h (pattern ?w ?h P) (i mod ?w) (i div ?w) = encode (Q (i mod ?w) (i div ?w))"
    if "i < ?w * ?h" for i
  proof -
    from that have "0 < ?w" by (cases "?w") simp_all
    then have x: "i mod ?w < ?w" by simp
    have y: "i div ?w < ?h" using that by (simp add: less_mult_imp_div_less mult.commute)
    show ?thesis using x y by (simp add: nextCell_pattern assms(4))
  qed
  then show ?thesis
    using SimulationStep_destination [OF assms(1,2)]
    by (simp add: assms(3) pattern_def del: upt_Suc)
qed

lemma sum_product:
  "sum_list (map (\<lambda>(nx, ny). if C nx \<and> R ny then 1 else (0::nat))
       [(xl, yu), (x, yu), (xr, yu), (xl, y), (xr, y), (xl, yd), (x, yd), (xr, yd)]) =
     (of_bool (C xl) + of_bool (C x) + of_bool (C xr)) *
     (of_bool (R yu) + of_bool (R y) + of_bool (R yd)) - of_bool (C x) * of_bool (R y)"
  by (cases "C xl"; cases "C x"; cases "C xr"; cases "R yu"; cases "R y"; cases "R yd"; simp)

lemma count_product:
  assumes "x < w" and "y < h"
  shows "sum_list (map (\<lambda>(nx, ny). if C nx \<and> R ny then 1 else (0::nat)) (neighbours w h x y)) =
     (of_bool (C (if x = 0 then w - 1 else x - 1)) + of_bool (C x) +
        of_bool (C (if Suc x = w then 0 else Suc x))) *
     (of_bool (R (if y = 0 then h - 1 else y - 1)) + of_bool (R y) +
        of_bool (R (if Suc y = h then 0 else Suc y))) - of_bool (C x) * of_bool (R y)"
  unfolding neighbours_eq [OF assms] by (rule sum_product)

lemma long_axis:
  assumes "2 \<le> c" and "c + 2 < n" and "x < n"
  shows "of_bool (c \<le> (if x = 0 then n - 1 else x - 1) + 1 \<and> (if x = 0 then n - 1 else x - 1) \<le> c + 1) +
       of_bool (c \<le> x + 1 \<and> x \<le> c + 1) +
       of_bool (c \<le> (if Suc x = n then 0 else Suc x) + 1 \<and> (if Suc x = n then 0 else Suc x) \<le> c + 1) =
     (if x = c then 3 else if x + 1 = c \<or> x = c + 1 then 2
      else if x + 2 = c \<or> x = c + 2 then 1 else 0 :: nat)"
  using assms by auto

lemma short_axis:
  assumes "1 \<le> c" and "c + 1 < n" and "x < n"
  shows "of_bool ((if x = 0 then n - 1 else x - 1) = c) + of_bool (x = c) +
       of_bool ((if Suc x = n then 0 else Suc x) = c) =
     (if x + 1 = c \<or> x = c \<or> x = c + 1 then 1 else 0 :: nat)"
  using assms by auto

lemma blinkerRow_step:
  assumes "2 \<le> cx" and "cx + 2 < w" and "2 \<le> cy" and "cy + 2 < h" and "x < w" and "y < h"
  shows "transition (blinkerRow cx cy x y)
       (sum_list (map (\<lambda>(nx, ny). if blinkerRow cx cy nx ny then 1 else 0) (neighbours w h x y)))
     = blinkerColumn cx cy x y"
proof -
  have P: "blinkerRow cx cy = (\<lambda>x y. (cx \<le> x + 1 \<and> x \<le> cx + 1) \<and> y = cy)"
    by (auto simp add: fun_eq_iff blinkerRow_def)
  have cy: "1 \<le> cy" "cy + 1 < h" using assms(3,4) by simp_all
  show ?thesis
    unfolding P count_product [OF assms(5,6)] long_axis [OF assms(1,2,5)] short_axis [OF cy assms(6)]
    using assms by (auto simp add: transition_def blinkerColumn_def)
qed

lemma blinkerColumn_step:
  assumes "2 \<le> cx" and "cx + 2 < w" and "2 \<le> cy" and "cy + 2 < h" and "x < w" and "y < h"
  shows "transition (blinkerColumn cx cy x y)
       (sum_list (map (\<lambda>(nx, ny). if blinkerColumn cx cy nx ny then 1 else 0) (neighbours w h x y)))
     = blinkerRow cx cy x y"
proof -
  have P: "blinkerColumn cx cy = (\<lambda>x y. x = cx \<and> (cy \<le> y + 1 \<and> y \<le> cy + 1))"
    by (auto simp add: fun_eq_iff blinkerColumn_def)
  have cx: "1 \<le> cx" "cx + 1 < w" using assms(1,2) by simp_all
  show ?thesis
    unfolding P count_product [OF assms(5,6)] long_axis [OF assms(3,4,6)] short_axis [OF cx assms(5)]
    using assms by (auto simp add: transition_def blinkerRow_def)
qed

lemma block_axis:
  assumes "p + 1 < n" and "3 \<le> n" and "x < n"
  shows "of_bool (p \<le> (if x = 0 then n - 1 else x - 1) \<and> (if x = 0 then n - 1 else x - 1) \<le> p + 1) +
       of_bool (p \<le> x \<and> x \<le> p + 1) +
       of_bool (p \<le> (if Suc x = n then 0 else Suc x) \<and> (if Suc x = n then 0 else Suc x) \<le> p + 1) =
     (if p \<le> x \<and> x \<le> p + 1 then 2
      else of_bool (p \<le> (if x = 0 then n - 1 else x - 1) \<and> (if x = 0 then n - 1 else x - 1) \<le> p + 1) +
           of_bool (p \<le> (if Suc x = n then 0 else Suc x) \<and> (if Suc x = n then 0 else Suc x) \<le> p + 1) :: nat)"
  using assms by auto

lemma product_not_three: "a \<le> 2 \<Longrightarrow> b \<le> 2 \<Longrightarrow> a * b \<noteq> (3::nat)"
proof -
  assume "a \<le> 2" "b \<le> 2"
  then have "a = 0 \<or> a = 1 \<or> a = 2" "b = 0 \<or> b = 1 \<or> b = 2" by auto
  then show ?thesis by auto
qed

lemma block_step:
  assumes "px + 1 < w" and "3 \<le> w" and "py + 1 < h" and "3 \<le> h" and "x < w" and "y < h"
  shows "transition (block px py x y)
       (sum_list (map (\<lambda>(nx, ny). if block px py nx ny then 1 else 0) (neighbours w h x y)))
     = block px py x y"
proof -
  have P: "block px py = (\<lambda>x y. (px \<le> x \<and> x \<le> px + 1) \<and> (py \<le> y \<and> y \<le> py + 1))"
    by (auto simp add: fun_eq_iff block_def)
  define a :: nat where "a = of_bool (px \<le> (if x = 0 then w - 1 else x - 1) \<and> (if x = 0 then w - 1 else x - 1) \<le> px + 1) +
           of_bool (px \<le> (if Suc x = w then 0 else Suc x) \<and> (if Suc x = w then 0 else Suc x) \<le> px + 1)"
  define b :: nat where "b = of_bool (py \<le> (if y = 0 then h - 1 else y - 1) \<and> (if y = 0 then h - 1 else y - 1) \<le> py + 1) +
           of_bool (py \<le> (if Suc y = h then 0 else Suc y) \<and> (if Suc y = h then 0 else Suc y) \<le> py + 1)"
  have ab: "a \<le> 2" "b \<le> 2" by (simp_all add: a_def b_def)
  have n3: "a * b \<noteq> 3" "2 * b \<noteq> 3" "a * 2 \<noteq> 3"
    using ab product_not_three [of a b] by presburger+
  show ?thesis
    unfolding P count_product [OF assms(5,6)] block_axis [OF assms(1,2,5)]
      block_axis [OF assms(3,4,6)] a_def [symmetric] b_def [symmetric]
    using n3 by (simp add: transition_def)
qed

section \<open>Oscillator and still life\<close>

lemma SimulationStep_wellFormed:
  assumes "wellFormed g" and "(src = 0) \<noteq> (dst = 0)"
  shows "wellFormed (SimulationStep g src dst)"
proof -
  have "length (buffer (SimulationStep g src dst) dst) = width g * height g"
    by (simp add: SimulationStep_destination [OF assms])
  moreover have "length (buffer (SimulationStep g src dst) src) = width g * height g"
    using assms SimulationStep_frame [OF assms(2), of g] by (auto simp add: wellFormed_def buffer_def)
  ultimately show ?thesis
    using assms SimulationStep_frame [OF assms(2), of g]
    by (auto simp add: wellFormed_def buffer_def)
qed

lemma two_steps:
  assumes "wellFormed g" and "(src = 0) \<noteq> (dst = 0)"
    and "buffer g src = pattern (width g) (height g) P"
    and "\<And>x y. x < width g \<Longrightarrow> y < height g \<Longrightarrow>
           transition (P x y)
             (sum_list (map (\<lambda>(nx, ny). if P nx ny then 1 else 0)
                (neighbours (width g) (height g) x y))) = Q x y"
    and "\<And>x y. x < width g \<Longrightarrow> y < height g \<Longrightarrow>
           transition (Q x y)
             (sum_list (map (\<lambda>(nx, ny). if Q nx ny then 1 else 0)
                (neighbours (width g) (height g) x y))) = P x y"
  shows "buffer (SimulationStep g src dst) dst = pattern (width g) (height g) Q \<and>
     buffer (SimulationStep (SimulationStep g src dst) dst src) src = buffer g src"
proof -
  let ?s = "SimulationStep g src dst"
  have ds: "(dst = 0) \<noteq> (src = 0)" using assms(2) by auto
  have one: "buffer ?s dst = pattern (width g) (height g) Q"
    using assms(1-4) by (rule step_pattern)
  have fr: "width ?s = width g" "height ?s = height g"
    using SimulationStep_frame [OF assms(2), of g] by simp_all
  have wf: "wellFormed ?s"
    using assms(1,2) by (rule SimulationStep_wellFormed)
  have "buffer (SimulationStep ?s dst src) src = pattern (width ?s) (height ?s) P"
  proof (rule step_pattern [OF wf ds])
    show "buffer ?s dst = pattern (width ?s) (height ?s) Q"
      by (simp add: fr one)
    show "transition (Q x y)
        (sum_list (map (\<lambda>(nx, ny). if Q nx ny then 1 else 0)
           (neighbours (width ?s) (height ?s) x y))) = P x y"
      if "x < width ?s" and "y < height ?s" for x y
      using that unfolding fr by (rule assms(5))
  qed
  then show ?thesis by (simp add: one fr assms(3))
qed

lemma pattern_differs:
  assumes "x < w" and "y < h" and "P x y \<noteq> Q x y"
  shows "pattern w h P \<noteq> pattern w h Q"
proof
  assume "pattern w h P = pattern w h Q"
  then have "load (pattern w h P) (cellIndex w x y) = load (pattern w h Q) (cellIndex w x y)"
    by simp
  then have "encode (P x y) = encode (Q x y)"
    using assms(1,2) by (simp add: load_pattern)
  with assms(3) show False by (auto simp add: encode_def)
qed

text \<open>
  Claim C5. On a well-formed grid, for the two slots in either order: when the 5 by 5
  window around \<open>(cx, cy)\<close> lies inside the grid, so that no neighbour of the pattern
  is reached through the wrap, a blinker centred there and lying along a row becomes,
  in one step, the blinker lying along the column, a different grid, and after the
  second step (destination and source swapped, as the scheduler does) the first buffer
  holds the original grid again; the same with row and column exchanged. A 2 by 2
  block that lies inside a grid at least 3 wide and 3 high, all other cells dead, is
  written unchanged to the destination by one step.
\<close>

theorem oscillator_and_still_life:
  assumes "wellFormed g" and "src < 2" and "dst < 2" and "src \<noteq> dst"
  shows "(2 \<le> cx \<and> cx + 2 < width g \<and> 2 \<le> cy \<and> cy + 2 < height g \<longrightarrow>
        pattern (width g) (height g) (blinkerRow cx cy) \<noteq>
          pattern (width g) (height g) (blinkerColumn cx cy) \<and>
        (buffer g src = pattern (width g) (height g) (blinkerRow cx cy) \<longrightarrow>
           buffer (SimulationStep g src dst) dst =
             pattern (width g) (height g) (blinkerColumn cx cy) \<and>
           buffer (SimulationStep (SimulationStep g src dst) dst src) src = buffer g src) \<and>
        (buffer g src = pattern (width g) (height g) (blinkerColumn cx cy) \<longrightarrow>
           buffer (SimulationStep g src dst) dst =
             pattern (width g) (height g) (blinkerRow cx cy) \<and>
           buffer (SimulationStep (SimulationStep g src dst) dst src) src = buffer g src)) \<and>
     (px + 1 < width g \<and> 3 \<le> width g \<and> py + 1 < height g \<and> 3 \<le> height g \<and>
      buffer g src = pattern (width g) (height g) (block px py) \<longrightarrow>
        buffer (SimulationStep g src dst) dst = buffer g src)"
proof -
  have sd: "(src = 0) \<noteq> (dst = 0)"
    using assms(2-4) by (rule slots)
  have blinker: ?thesis if b: "2 \<le> cx" "cx + 2 < width g" "2 \<le> cy" "cy + 2 < height g"
    and k: "px + 1 < width g \<and> 3 \<le> width g \<and> py + 1 < height g \<and> 3 \<le> height g \<and>
      buffer g src = pattern (width g) (height g) (block px py) \<longrightarrow>
        buffer (SimulationStep g src dst) dst = buffer g src"
  proof -
    have "blinkerRow cx cy (cx + 1) cy \<noteq> blinkerColumn cx cy (cx + 1) cy"
      by (simp add: blinkerRow_def blinkerColumn_def)
    then have d: "pattern (width g) (height g) (blinkerRow cx cy) \<noteq>
        pattern (width g) (height g) (blinkerColumn cx cy)"
      using b by (intro pattern_differs [of "cx + 1" _ cy]) simp_all
    have r: "buffer (SimulationStep g src dst) dst =
             pattern (width g) (height g) (blinkerColumn cx cy) \<and>
           buffer (SimulationStep (SimulationStep g src dst) dst src) src = buffer g src"
      if "buffer g src = pattern (width g) (height g) (blinkerRow cx cy)"
      using assms(1) sd that
      by (rule two_steps) (rule blinkerRow_step [OF b] blinkerColumn_step [OF b]; assumption)+
    have c: "buffer (SimulationStep g src dst) dst =
             pattern (width g) (height g) (blinkerRow cx cy) \<and>
           buffer (SimulationStep (SimulationStep g src dst) dst src) src = buffer g src"
      if "buffer g src = pattern (width g) (height g) (blinkerColumn cx cy)"
      using assms(1) sd that
      by (rule two_steps) (rule blinkerRow_step [OF b] blinkerColumn_step [OF b]; assumption)+
    from d r c k show ?thesis by blast
  qed
  have block: "buffer (SimulationStep g src dst) dst = buffer g src"
    if p: "px + 1 < width g" "3 \<le> width g" "py + 1 < height g" "3 \<le> height g"
      and e: "buffer g src = pattern (width g) (height g) (block px py)"
  proof -
    have "buffer (SimulationStep g src dst) dst = pattern (width g) (height g) (block px py)"
      using assms(1) sd e by (rule step_pattern) (rule block_step [OF p])
    then show ?thesis by (simp add: e)
  qed
  from blinker block show ?thesis by blast
qed

theorem oscillator_and_still_life_witness:
  "buffer (SimulationStep (SimulationStep
      \<lparr>width = 5, height = 5,
       bufferA = [0, 0, 0, 0, 0,  0, 0, 0, 0, 0,  0, 1, 1, 1, 0,  0, 0, 0, 0, 0,  0, 0, 0, 0, 0],
       bufferB = [9, 9, 9, 9, 9,  9, 9, 9, 9, 9,  9, 9, 9, 9, 9,  9, 9, 9, 9, 9,  9, 9, 9, 9, 9]\<rparr>
      0 1) 1 0) 0 =
     [0, 0, 0, 0, 0,  0, 0, 0, 0, 0,  0, 1, 1, 1, 0,  0, 0, 0, 0, 0,  0, 0, 0, 0, 0] \<and>
   buffer (SimulationStep
      \<lparr>width = 5, height = 5,
       bufferA = [0, 0, 0, 0, 0,  0, 0, 0, 0, 0,  0, 1, 1, 1, 0,  0, 0, 0, 0, 0,  0, 0, 0, 0, 0],
       bufferB = [9, 9, 9, 9, 9,  9, 9, 9, 9, 9,  9, 9, 9, 9, 9,  9, 9, 9, 9, 9,  9, 9, 9, 9, 9]\<rparr>
      0 1) 1 =
     [0, 0, 0, 0, 0,  0, 0, 1, 0, 0,  0, 0, 1, 0, 0,  0, 0, 1, 0, 0,  0, 0, 0, 0, 0] \<and>
   buffer (SimulationStep
      \<lparr>width = 5, height = 5,
       bufferA = [0, 0, 0, 0, 0,  0, 1, 1, 0, 0,  0, 1, 1, 0, 0,  0, 0, 0, 0, 0,  0, 0, 0, 0, 0],
       bufferB = [9, 9, 9, 9, 9,  9, 9, 9, 9, 9,  9, 9, 9, 9, 9,  9, 9, 9, 9, 9,  9, 9, 9, 9, 9]\<rparr>
      0 1) 1 =
     [0, 0, 0, 0, 0,  0, 1, 1, 0, 0,  0, 1, 1, 0, 0,  0, 0, 0, 0, 0,  0, 0, 0, 0, 0]"
proof -
  have row: "pattern 5 5 (blinkerRow 2 2) =
      [0, 0, 0, 0, 0,  0, 0, 0, 0, 0,  0, 1, 1, 1, 0,  0, 0, 0, 0, 0,  0, 0, 0, 0, 0]"
    by code_simp
  have column: "pattern 5 5 (blinkerColumn 2 2) =
      [0, 0, 0, 0, 0,  0, 0, 1, 0, 0,  0, 0, 1, 0, 0,  0, 0, 1, 0, 0,  0, 0, 0, 0, 0]"
    by code_simp
  have square: "pattern 5 5 (block 1 1) =
      [0, 0, 0, 0, 0,  0, 1, 1, 0, 0,  0, 1, 1, 0, 0,  0, 0, 0, 0, 0,  0, 0, 0, 0, 0]"
    by code_simp
  show ?thesis
    using row column square
      oscillator_and_still_life [of "\<lparr>width = 5, height = 5,
       bufferA = [0, 0, 0, 0, 0,  0, 0, 0, 0, 0,  0, 1, 1, 1, 0,  0, 0, 0, 0, 0,  0, 0, 0, 0, 0],
       bufferB = [9, 9, 9, 9, 9,  9, 9, 9, 9, 9,  9, 9, 9, 9, 9,  9, 9, 9, 9, 9,  9, 9, 9, 9, 9]\<rparr>"
       0 1 2 2 1 1]
      oscillator_and_still_life [of "\<lparr>width = 5, height = 5,
       bufferA = [0, 0, 0, 0, 0,  0, 1, 1, 0, 0,  0, 1, 1, 0, 0,  0, 0, 0, 0, 0,  0, 0, 0, 0, 0],
       bufferB = [9, 9, 9, 9, 9,  9, 9, 9, 9, 9,  9, 9, 9, 9, 9,  9, 9, 9, 9, 9,  9, 9, 9, 9, 9]\<rparr>"
       0 1 2 2 1 1]
    by (simp add: wellFormed_def buffer_def)
qed

end
